theory Spec2Isabelle
  imports Complex_Main "HOL-Library.Multiset"
begin

section \<open>The world outside the repository\<close>

text \<open>
  \<^verbatim>\<open>src/main.py\<close> is one class, \<^verbatim>\<open>WebScraper\<close>, and a command-line front end. The class
  talks to three libraries: \<^verbatim>\<open>urllib.parse\<close>, \<^verbatim>\<open>urllib.robotparser\<close> and \<^verbatim>\<open>requests\<close>, and
  reads the clock. None of them is code of the repository, so each is a parameter of the
  model, collected in the record \<open>env\<close>: every theorem below holds for all of them.

  Python exceptions are values of \<open>exn\<close>. The first four are
  \<^verbatim>\<open>requests.RequestException\<close> and three of its subclasses; \<open>ValueError\<close> is what
  \<^verbatim>\<open>urljoin\<close> raises on a reference such as \<^verbatim>\<open>http://[\<close>.
\<close>

datatype exn = Timeout | ConnectionError | HTTPError | RequestException | ValueError | OtherError

fun is_request_exception :: "exn \<Rightarrow> bool" where
  "is_request_exception Timeout = True"
| "is_request_exception ConnectionError = True"
| "is_request_exception HTTPError = True"
| "is_request_exception RequestException = True"
| "is_request_exception ValueError = False"
| "is_request_exception OtherError = False"

text \<open>
  A parsed robots.txt (\<^verbatim>\<open>RobotFileParser\<close> after \<^verbatim>\<open>parse\<close>): its two queries, each taking
  the user agent first. \<^verbatim>\<open>crawl_delay\<close> returns an integer read from decimal digits, or
  \<^verbatim>\<open>None\<close>.
\<close>

record policy =
  rp_can_fetch :: "string \<Rightarrow> string \<Rightarrow> bool"
  rp_crawl_delay :: "string \<Rightarrow> nat option"

text \<open>
  What the code reads of a \<^verbatim>\<open>requests\<close> response: the status, the content-type header,
  and the body through its two parsers, BeautifulSoup (the \<^verbatim>\<open>href\<close> of every
  \<^verbatim>\<open>a\<close> element and the \<^verbatim>\<open>src\<close> of every \<^verbatim>\<open>img\<close> element, in document order) and
  \<^verbatim>\<open>RobotFileParser.parse\<close>.
\<close>

record response =
  status :: int
  content_type :: string
  hrefs :: "string list"
  srcs :: "string list"
  robots_txt :: policy

text \<open>
  The web answers a request for a URL the same way throughout one session. Time is a
  rational number of seconds; a request to \<open>u\<close> takes \<open>latency env u\<close>.
\<close>

record env =
  url_scheme :: "string \<Rightarrow> string"
  url_netloc :: "string \<Rightarrow> string"
  url_clean :: "string \<Rightarrow> string"
  urljoin :: "string \<Rightarrow> string \<Rightarrow> exn + string"
  requests_get :: "string \<Rightarrow> exn + response"
  requests_head :: "string \<Rightarrow> exn + int"
  latency :: "string \<Rightarrow> rat"

section \<open>Patterns\<close>

text \<open>
  \<^verbatim>\<open>main\<close> hands the scraper patterns compiled by
  \<^verbatim>\<open>re.compile(fnmatch.translate(p), re.IGNORECASE)\<close>. \<^verbatim>\<open>fnmatch.translate\<close> turns
  \<^verbatim>\<open>*\<close> into \<^verbatim>\<open>.*\<close>, \<^verbatim>\<open>?\<close> into \<^verbatim>\<open>.\<close>, escapes every other character, and wraps the
  result as \<^verbatim>\<open>(?s:...)\Z\<close>: the regular expression is anchored at the end of the string
  and nowhere else. A compiled pattern is the list of its tokens. The bracket syntax of
  \<^verbatim>\<open>fnmatch\<close> is not modelled: a pattern with \<^verbatim>\<open>[\<close> has no translation here.
\<close>

datatype tok = Star | Quest | Lit char

type_synonym regex = "tok list"

text \<open>
  \<^verbatim>\<open>re.IGNORECASE\<close> and \<^verbatim>\<open>str.lower\<close> on ASCII: an upper-case letter (65 to 90) becomes
  the letter 32 further on, which is the same byte with the bit of weight 32 set.
\<close>

definition lower :: "char \<Rightarrow> char" where
  "lower c = (if 65 \<le> (of_char c :: nat) \<and> (of_char c :: nat) \<le> 90
              then (case c of Char b0 b1 b2 b3 b4 b5 b6 b7 \<Rightarrow> Char b0 b1 b2 b3 b4 True b6 b7)
              else c)"

fun glob_tok :: "char \<Rightarrow> tok" where
  "glob_tok c = (if c = CHR ''*'' then Star else if c = CHR ''?'' then Quest else Lit c)"

definition fnmatch_translate :: "string \<Rightarrow> regex option" where
  "fnmatch_translate p = (if CHR ''['' \<in> set p then None else Some (map glob_tok p))"

definition wildcard_to_regex :: "string \<Rightarrow> regex option" where
  "wildcard_to_regex p = fnmatch_translate p"

text \<open>
  \<^verbatim>\<open>pattern.match(s)\<close>: the pattern is tried at position 0 only; with the closing
  \<^verbatim>\<open>\Z\<close> it has to use up the whole string.
\<close>

fun re_match :: "regex \<Rightarrow> string \<Rightarrow> bool" where
  "re_match [] s = (s = [])"
| "re_match (Star # ts) [] = re_match ts []"
| "re_match (Star # ts) (c # s) = (re_match ts (c # s) \<or> re_match (Star # ts) s)"
| "re_match (Quest # ts) [] = False"
| "re_match (Quest # ts) (c # s) = re_match ts s"
| "re_match (Lit a # ts) [] = False"
| "re_match (Lit a # ts) (c # s) = (lower c = lower a \<and> re_match ts s)"

text \<open>\<^verbatim>\<open>pattern.search(s)\<close>: the pattern is tried at every position, from the left.\<close>

fun re_search :: "regex \<Rightarrow> string \<Rightarrow> bool" where
  "re_search ts [] = re_match ts []"
| "re_search ts (c # s) = (re_match ts (c # s) \<or> re_search ts s)"

section \<open>The scraper\<close>

text \<open>The arguments of \<^verbatim>\<open>WebScraper.__init__\<close> that the crawl reads.\<close>

record config =
  start_url :: string
  allow_exit :: bool
  external_links_depth :: int
  max_depth :: int
  delay :: rat
  respect_robots :: bool
  user_agent :: string
  exclude_patterns :: "regex list"
  include_patterns :: "regex list"

text \<open>
  The dictionary built by \<^verbatim>\<open>extract_data\<close>; the fields that only describe the page's
  text (title, meta tags, headings, text length, timestamp) are left out.
\<close>

record page_data =
  pd_url :: string
  pd_domain :: string
  pd_links :: "string list"
  pd_images :: "string list"
  pd_status :: "int option"

text \<open>
  Every HTTP request is written to \<open>requests_log\<close> with its kind, its URL and the time
  it starts. The log and the clock are the only fields that are not attributes of the
  Python object.
\<close>

datatype req_kind = Head | ProbeGet | RobotsGet | ScrapeGet | LinksGet

type_synonym event = "req_kind \<times> string \<times> rat"

record state =
  visited_urls :: "string set"
  scraped_data :: "page_data list"
  max_external_hops :: int
  current_domains :: "string set"
  robots_cache :: "string \<rightharpoonup> policy option"
  domain_delays :: "string \<rightharpoonup> rat"
  clock :: rat
  requests_log :: "event list"

definition start_domain :: "config \<Rightarrow> env \<Rightarrow> string" where
  "start_domain cfg env = url_netloc env (start_url cfg)"

definition init_state :: "config \<Rightarrow> env \<Rightarrow> state" where
  "init_state cfg env =
     \<lparr>visited_urls = {}, scraped_data = [], max_external_hops = 0,
      current_domains = {start_domain cfg env}, robots_cache = Map.empty,
      domain_delays = Map.empty, clock = 0, requests_log = []\<rparr>"

definition http_request :: "env \<Rightarrow> req_kind \<Rightarrow> string \<Rightarrow> state \<Rightarrow> state" where
  "http_request env k u s =
     s\<lparr>clock := clock s + latency env u, requests_log := requests_log s @ [(k, u, clock s)]\<rparr>"

definition sleep :: "rat \<Rightarrow> state \<Rightarrow> state" where
  "sleep d s = s\<lparr>clock := clock s + d\<rparr>"

subsection \<open>Robots policy cache\<close>

definition robots_url :: "config \<Rightarrow> env \<Rightarrow> string \<Rightarrow> string" where
  "robots_url cfg env domain =
     (if url_scheme env (start_url cfg) = [] then ''https'' else url_scheme env (start_url cfg))
       @ ''://'' @ domain @ ''/robots.txt''"

definition cache_robots :: "string \<Rightarrow> policy option \<Rightarrow> state \<Rightarrow> state" where
  "cache_robots domain rp s = s\<lparr>robots_cache := (robots_cache s)(domain \<mapsto> rp)\<rparr>"

definition store_crawl_delay :: "config \<Rightarrow> string \<Rightarrow> policy \<Rightarrow> state \<Rightarrow> state" where
  "store_crawl_delay cfg domain rp s =
     (case rp_crawl_delay rp (user_agent cfg) of
        None \<Rightarrow> s
      | Some n \<Rightarrow> if n = 0 then s
                  else s\<lparr>domain_delays := (domain_delays s)(domain \<mapsto> of_nat n)\<rparr>)"

definition get_robots_parser :: "config \<Rightarrow> env \<Rightarrow> string \<Rightarrow> state \<Rightarrow> policy option \<times> state" where
  "get_robots_parser cfg env domain s =
     (if \<not> respect_robots cfg then (None, s)
      else case robots_cache s domain of
        Some rp \<Rightarrow> (rp, s)
      | None \<Rightarrow>
         (let s1 = http_request env RobotsGet (robots_url cfg env domain) s in
          case requests_get env (robots_url cfg env domain) of
            Inl e \<Rightarrow> (None, cache_robots domain None s1)
          | Inr r \<Rightarrow>
              if status r = 200
              then (Some (robots_txt r),
                    store_crawl_delay cfg domain (robots_txt r)
                      (cache_robots domain (Some (robots_txt r)) s1))
              else (None, cache_robots domain None s1)))"

definition can_fetch :: "config \<Rightarrow> env \<Rightarrow> string \<Rightarrow> state \<Rightarrow> bool \<times> state" where
  "can_fetch cfg env url s =
     (if \<not> respect_robots cfg then (True, s)
      else case get_robots_parser cfg env (url_netloc env url) s of
        (None, s1) \<Rightarrow> (True, s1)
      | (Some rp, s1) \<Rightarrow> (rp_can_fetch rp (user_agent cfg) url, s1))"

definition get_crawl_delay :: "config \<Rightarrow> env \<Rightarrow> string \<Rightarrow> state \<Rightarrow> rat" where
  "get_crawl_delay cfg env url s =
     (case domain_delays s (url_netloc env url) of
        Some d \<Rightarrow> max (delay cfg) d
      | None \<Rightarrow> delay cfg)"

subsection \<open>Pattern filter and scope guard\<close>

definition is_valid_url :: "config \<Rightarrow> env \<Rightarrow> string \<Rightarrow> state \<Rightarrow> bool \<times> state" where
  "is_valid_url cfg env url s =
     (case can_fetch cfg env url s of
        (ok, s1) \<Rightarrow>
          if \<not> ok then (False, s1)
          else if list_ex (\<lambda>p. re_search p url) (exclude_patterns cfg) then (False, s1)
          else if include_patterns cfg \<noteq> []
               then (list_ex (\<lambda>p. re_search p url) (include_patterns cfg), s1)
          else (True, s1))"

definition is_same_domain :: "config \<Rightarrow> env \<Rightarrow> string \<Rightarrow> state \<Rightarrow> bool \<times> state" where
  "is_same_domain cfg env url s =
     (if url_netloc env url = start_domain cfg env then (True, s)
      else if allow_exit cfg then
        (if url_netloc env url \<notin> current_domains s then
           (if max_external_hops s < external_links_depth cfg
            then (True, s\<lparr>max_external_hops := max_external_hops s + 1,
                          current_domains := insert (url_netloc env url) (current_domains s)\<rparr>)
            else (False, s))
         else (True, s))
      else (False, s))"

subsection \<open>Scraping one page\<close>

text \<open>
  The loop of \<^verbatim>\<open>extract_data\<close> over the first 50 anchors. \<^verbatim>\<open>is_same_domain\<close> is called
  on every resolved reference, and what it does to the state stays done when a later
  \<^verbatim>\<open>urljoin\<close> raises.
\<close>

fun extract_links ::
  "config \<Rightarrow> env \<Rightarrow> string \<Rightarrow> string list \<Rightarrow> string list \<Rightarrow> state \<Rightarrow> (exn + string list) \<times> state"
where
  "extract_links cfg env url [] acc s = (Inr acc, s)"
| "extract_links cfg env url (h # hs) acc s =
     (case urljoin env url h of
        Inl e \<Rightarrow> (Inl e, s)
      | Inr a \<Rightarrow>
          (case is_same_domain cfg env a s of
             (ok, s1) \<Rightarrow> extract_links cfg env url hs (if ok then acc @ [a] else acc) s1))"

fun extract_images :: "env \<Rightarrow> string \<Rightarrow> string list \<Rightarrow> exn + string list" where
  "extract_images env url [] = Inr []"
| "extract_images env url (i # is) =
     (case urljoin env url i of
        Inl e \<Rightarrow> Inl e
      | Inr a \<Rightarrow> (case extract_images env url is of Inl e \<Rightarrow> Inl e | Inr as \<Rightarrow> Inr (a # as)))"

definition extract_data ::
  "config \<Rightarrow> env \<Rightarrow> response \<Rightarrow> string \<Rightarrow> state \<Rightarrow> (exn + page_data) \<times> state"
where
  "extract_data cfg env r url s =
     (case extract_links cfg env url (take 50 (hrefs r)) [] s of
        (Inl e, s1) \<Rightarrow> (Inl e, s1)
      | (Inr ls, s1) \<Rightarrow>
          (case extract_images env url (take 20 (srcs r)) of
             Inl e \<Rightarrow> (Inl e, s1)
           | Inr is \<Rightarrow>
               (Inr \<lparr>pd_url = url, pd_domain = url_netloc env url, pd_links = ls,
                     pd_images = is, pd_status = None\<rparr>, s1)))"

text \<open>\<^verbatim>\<open>'text/html' in content_type\<close> is a substring test.\<close>

fun starts_with :: "string \<Rightarrow> string \<Rightarrow> bool" where
  "starts_with [] s = True"
| "starts_with (a # p) [] = False"
| "starts_with (a # p) (c # s) = (a = c \<and> starts_with p s)"

fun contains :: "string \<Rightarrow> string \<Rightarrow> bool" where
  "contains p [] = starts_with p []"
| "contains p (c # s) = (starts_with p (c # s) \<or> contains p s)"

definition is_html :: "response \<Rightarrow> bool" where
  "is_html r = (contains ''text/html'' (map lower (content_type r))
                \<or> contains ''application/xhtml+xml'' (map lower (content_type r)))"

text \<open>\<^verbatim>\<open>raise_for_status\<close> raises \<^verbatim>\<open>HTTPError\<close> on a 4xx or 5xx status.\<close>

definition raise_for_status :: "response \<Rightarrow> bool" where
  "raise_for_status r = (400 \<le> status r \<and> status r < 600)"

text \<open>
  \<^verbatim>\<open>scrape_url\<close> catches every exception and returns \<^verbatim>\<open>None\<close>.
  \<^verbatim>\<open>time.sleep\<close> raises \<^verbatim>\<open>ValueError\<close> on a negative argument, inside the same \<^verbatim>\<open>try\<close>.
\<close>

definition scrape_url :: "config \<Rightarrow> env \<Rightarrow> string \<Rightarrow> state \<Rightarrow> page_data option \<times> state" where
  "scrape_url cfg env url s =
     (let s1 = http_request env ScrapeGet url s in
      case requests_get env url of
        Inl e \<Rightarrow> (None, s1)
      | Inr r \<Rightarrow>
          if status r = 429
          then (None, if 0 \<le> delay cfg * 3 then sleep (delay cfg * 3) s1 else s1)
          else if raise_for_status r then (None, s1)
          else if \<not> is_html r then (None, s1)
          else (case extract_data cfg env r url s1 of
                  (Inl e, s2) \<Rightarrow> (None, s2)
                | (Inr data, s2) \<Rightarrow> (Some (data\<lparr>pd_status := Some (status r)\<rparr>), s2)))"

subsection \<open>Discovering links\<close>

text \<open>
  The loop of \<^verbatim>\<open>get_links_from_page\<close> over all anchors of the page. The conjunction
  short-circuits: \<^verbatim>\<open>is_valid_url\<close> runs only on a non-empty URL other than the page's
  own, \<^verbatim>\<open>is_same_domain\<close> only after \<^verbatim>\<open>is_valid_url\<close> said yes.
\<close>

fun collect_links ::
  "config \<Rightarrow> env \<Rightarrow> string \<Rightarrow> string list \<Rightarrow> string list \<Rightarrow> state \<Rightarrow> (exn + string list) \<times> state"
where
  "collect_links cfg env url [] acc s = (Inr acc, s)"
| "collect_links cfg env url (h # hs) acc s =
     (case urljoin env url h of
        Inl e \<Rightarrow> (Inl e, s)
      | Inr a \<Rightarrow>
          if url_clean env a \<noteq> [] \<and> url_clean env a \<noteq> url then
            (case is_valid_url cfg env (url_clean env a) s of
               (v, s1) \<Rightarrow>
                 if v then
                   (case is_same_domain cfg env (url_clean env a) s1 of
                      (d, s2) \<Rightarrow>
                        collect_links cfg env url hs
                          (if d then acc @ [url_clean env a] else acc) s2)
                 else collect_links cfg env url hs acc s1)
          else collect_links cfg env url hs acc s)"

fun unique_links :: "string set \<Rightarrow> string list \<Rightarrow> string list" where
  "unique_links seen [] = []"
| "unique_links seen (l # ls) =
     (if l \<in> seen then unique_links seen ls else l # unique_links (insert l seen) ls)"

text \<open>
  \<^verbatim>\<open>get_links_from_page\<close> catches \<^verbatim>\<open>requests.RequestException\<close> only; any other
  exception leaves the function.
\<close>

definition get_links_from_page ::
  "config \<Rightarrow> env \<Rightarrow> string \<Rightarrow> state \<Rightarrow> (exn + string list) \<times> state"
where
  "get_links_from_page cfg env url s =
     (let s1 = http_request env LinksGet url s in
      case requests_get env url of
        Inl e \<Rightarrow> (if is_request_exception e then Inr [] else Inl e, s1)
      | Inr r \<Rightarrow>
          if raise_for_status r then (Inr [], s1)
          else if \<not> is_html r then (Inr [], s1)
          else (case collect_links cfg env url (hrefs r) [] s1 of
                  (Inl e, s2) \<Rightarrow> (if is_request_exception e then Inr [] else Inl e, s2)
                | (Inr links, s2) \<Rightarrow> (Inr (unique_links {} links), s2)))"

subsection \<open>The crawl\<close>

type_synonym frontier = "(string \<times> nat) list"

text \<open>
  The rate limiter is written inline in \<^verbatim>\<open>crawl\<close>; \<open>lrt\<close> is the local dictionary
  \<^verbatim>\<open>last_request_time\<close>. The time stamp stored is the time after the sleep, just before
  \<^verbatim>\<open>scrape_url\<close> is called.
\<close>

definition rate_limit_wait ::
  "config \<Rightarrow> env \<Rightarrow> string \<Rightarrow> (string \<rightharpoonup> rat) \<Rightarrow> state \<Rightarrow> (string \<rightharpoonup> rat) \<times> state"
where
  "rate_limit_wait cfg env url lrt s =
     (let s1 = (case lrt (url_netloc env url) of
                  None \<Rightarrow> s
                | Some t \<Rightarrow>
                    if clock s - t < get_crawl_delay cfg env url s
                    then sleep (get_crawl_delay cfg env url s - (clock s - t)) s
                    else s)
      in (lrt(url_netloc env url \<mapsto> clock s1), s1))"

definition enqueue_links :: "state \<Rightarrow> nat \<Rightarrow> string list \<Rightarrow> frontier" where
  "enqueue_links s depth links =
     map (\<lambda>l. (l, depth + 1)) (filter (\<lambda>l. l \<notin> visited_urls s) links)"

text \<open>
  One turn of the \<^verbatim>\<open>while\<close> loop from \<^verbatim>\<open>self.visited_urls.add(current_url)\<close> on. It
  returns the entries to append to the queue, or the exception that leaves the loop.
\<close>

definition crawl_page ::
  "config \<Rightarrow> env \<Rightarrow> string \<Rightarrow> nat \<Rightarrow> (string \<rightharpoonup> rat) \<Rightarrow> state
     \<Rightarrow> (exn + frontier) \<times> (string \<rightharpoonup> rat) \<times> state"
where
  "crawl_page cfg env url depth lrt s =
     (case rate_limit_wait cfg env url lrt (s\<lparr>visited_urls := insert url (visited_urls s)\<rparr>) of
        (lrt1, s1) \<Rightarrow>
          (case scrape_url cfg env url s1 of
             (None, s2) \<Rightarrow> (Inr [], lrt1, s2)
           | (Some data, s2) \<Rightarrow>
               if int depth < max_depth cfg then
                 (case get_links_from_page cfg env url
                         (s2\<lparr>scraped_data := scraped_data s2 @ [data]\<rparr>) of
                    (Inl e, s3) \<Rightarrow> (Inl e, lrt1, s3)
                  | (Inr links, s3) \<Rightarrow> (Inr (enqueue_links s3 depth links), lrt1, s3))
               else (Inr [], lrt1, s2\<lparr>scraped_data := scraped_data s2 @ [data]\<rparr>)))"

lemma crawl_page_new:
  assumes "crawl_page cfg env url depth lrt s = (Inr new, lrt', s')"
  shows "\<forall>e \<in> set new. snd e = depth + 1 \<and> int depth < max_depth cfg"
  using assms
  by (auto simp: crawl_page_def enqueue_links_def
           split: prod.splits option.splits if_splits sum.splits)

definition weight :: "config \<Rightarrow> string \<times> nat \<Rightarrow> nat" where
  "weight cfg e = nat (max_depth cfg + 1 - int (snd e))"

lemma frontier_shrinks:
  assumes "\<forall>k \<in> set ks. k < j"
  shows "(mset xs + mset ks, add_mset j (mset xs)) \<in> mult less_than"
proof -
  have "(mset xs + mset ks, mset xs + {#j#}) \<in> mult less_than"
    by (rule one_step_implies_mult) (use assms in auto)
  then show ?thesis by simp
qed

function crawl_loop ::
  "config \<Rightarrow> env \<Rightarrow> frontier \<Rightarrow> (string \<rightharpoonup> rat) \<Rightarrow> state \<Rightarrow> exn option \<times> state"
where
  "crawl_loop cfg env [] lrt s = (None, s)"
| "crawl_loop cfg env ((url, depth) # queue) lrt s =
     (if url \<in> visited_urls s then crawl_loop cfg env queue lrt s
      else if int depth > max_depth cfg then crawl_loop cfg env queue lrt s
      else case is_same_domain cfg env url s of
        (ok, s1) \<Rightarrow>
          if \<not> ok then crawl_loop cfg env queue lrt s1
          else (case crawl_page cfg env url depth lrt s1 of
                  (Inl e, lrt', s2) \<Rightarrow> (Some e, s2)
                | (Inr new, lrt', s2) \<Rightarrow> crawl_loop cfg env (queue @ new) lrt' s2))"
  by pat_completeness auto
termination
proof (relation "inv_image (mult less_than)
                   (\<lambda>(cfg, env, queue, lrt, s). mset (map (weight cfg) queue))",
       goal_cases)
  case 1
  show ?case by (intro wf_inv_image wf_mult wf_less_than)
next
  case (2 cfg env url depth queue lrt s)
  show ?case
    using frontier_shrinks [of "[]" "weight cfg (url, depth)" "map (weight cfg) queue"] by simp
next
  case (3 cfg env url depth queue lrt s)
  show ?case
    using frontier_shrinks [of "[]" "weight cfg (url, depth)" "map (weight cfg) queue"] by simp
next
  case (4 cfg env url depth queue lrt s ok s1)
  show ?case
    using frontier_shrinks [of "[]" "weight cfg (url, depth)" "map (weight cfg) queue"] by simp
next
  case (5 cfg env url depth queue lrt s ok s1 r z new lrt' s2)
  then have "crawl_page cfg env url depth lrt s1 = (Inr new, lrt', s2)"
    by (metis prod.collapse fst_conv snd_conv)
  then have "\<forall>k \<in> set (map (weight cfg) new). k < weight cfg (url, depth)"
    using crawl_page_new [of cfg env url depth lrt s1 new lrt' s2]
    by (auto simp: weight_def)
  then show ?case
    using frontier_shrinks [of "map (weight cfg) new" "weight cfg (url, depth)" "map (weight cfg) queue"]
    by simp
qed

text \<open>
  The start of \<^verbatim>\<open>crawl\<close>: a HEAD request for the start URL; when it raises or answers
  400 or more, a GET request. An exception of that GET reaches the outer handler.
\<close>

definition test_start_url :: "config \<Rightarrow> env \<Rightarrow> state \<Rightarrow> (exn + int) \<times> state" where
  "test_start_url cfg env s =
     (let s1 = http_request env Head (start_url cfg) s;
          retry = (case requests_get env (start_url cfg) of
                     Inl e \<Rightarrow> (Inl e, http_request env ProbeGet (start_url cfg) s1)
                   | Inr r \<Rightarrow> (Inr (status r), http_request env ProbeGet (start_url cfg) s1))
      in case requests_head env (start_url cfg) of
           Inl e \<Rightarrow> retry
         | Inr st \<Rightarrow> if st \<ge> 400 \<or> st = 405 then retry else (Inr st, s1))"

text \<open>
  The robots check of the start URL sits inside the same \<^verbatim>\<open>try\<close>: when the test
  requests raise, the handler logs a warning and the crawl goes on without the check.
\<close>

definition crawl :: "config \<Rightarrow> env \<Rightarrow> state \<Rightarrow> exn option \<times> state" where
  "crawl cfg env s =
     (case test_start_url cfg env s of
        (Inl e, s1) \<Rightarrow> crawl_loop cfg env [(start_url cfg, 0)] Map.empty s1
      | (Inr st, s1) \<Rightarrow>
          (case can_fetch cfg env (start_url cfg) s1 of
             (ok, s2) \<Rightarrow>
               if \<not> ok \<and> respect_robots cfg then (None, s2)
               else crawl_loop cfg env [(start_url cfg, 0)] Map.empty s2))"

subsection \<open>The command line\<close>

text \<open>
  What \<^verbatim>\<open>main\<close> does between \<^verbatim>\<open>parse_args\<close> and the call of \<^verbatim>\<open>crawl\<close>: one check of the
  arguments (\<^verbatim>\<open>parser.error\<close> is \<open>None\<close>), the translation of the wildcard patterns,
  and the constructor. The integers and the delay are not checked: a negative
  \<^verbatim>\<open>--external-links-depth\<close> with \<^verbatim>\<open>--allow-exit\<close> is accepted.
\<close>

record args =
  arg_url :: string
  arg_allow_exit :: bool
  arg_external_links_depth :: int
  arg_depth :: int
  arg_delay :: rat
  arg_no_robots :: bool
  arg_bot_name :: string
  arg_exclude :: "string list"
  arg_include :: "string list"

fun compile_all :: "string list \<Rightarrow> regex list option" where
  "compile_all [] = Some []"
| "compile_all (p # ps) =
     (case wildcard_to_regex p of
        None \<Rightarrow> None
      | Some r \<Rightarrow> (case compile_all ps of None \<Rightarrow> None | Some rs \<Rightarrow> Some (r # rs)))"

definition main_config :: "args \<Rightarrow> config option" where
  "main_config a =
     (if arg_external_links_depth a > 0 \<and> \<not> arg_allow_exit a then None
      else case compile_all (arg_exclude a) of
        None \<Rightarrow> None
      | Some ex \<Rightarrow>
          (case compile_all (arg_include a) of
             None \<Rightarrow> None
           | Some inc \<Rightarrow>
               Some \<lparr>start_url = arg_url a, allow_exit = arg_allow_exit a,
                     external_links_depth = arg_external_links_depth a,
                     max_depth = arg_depth a, delay = arg_delay a,
                     respect_robots = (\<not> arg_no_robots a), user_agent = arg_bot_name a,
                     exclude_patterns = ex, include_patterns = inc\<rparr>))"

section \<open>Glob patterns in the words of the specification\<close>



section \<open>Concrete worlds and invariants\<close>

text \<open>
  The inputs of the examples. The four URL functions do what \<^verbatim>\<open>urllib.parse\<close> does on
  the URLs used here, which all are \<^verbatim>\<open>http://host/path\<close> with an optional query and
  fragment: the scheme ends at the first colon, the host runs from the two slashes to the
  next slash, question mark or hash, and cleaning drops the query and the fragment.
  \<^verbatim>\<open>urljoin\<close> keeps an absolute reference, appends a reference that starts with a slash
  to the scheme and host of the base, and raises \<^verbatim>\<open>ValueError\<close> (Invalid IPv6 URL) on
  \<^verbatim>\<open>http://[\<close>. Every request takes a tenth of a second.
\<close>

fun after_slashes :: "string \<Rightarrow> string" where
  "after_slashes (a # b # s) = (if a = CHR ''/'' \<and> b = CHR ''/'' then s else after_slashes (b # s))"
| "after_slashes s = []"

definition simple_netloc :: "string \<Rightarrow> string" where
  "simple_netloc u = takeWhile (\<lambda>c. c \<noteq> CHR ''/'' \<and> c \<noteq> CHR ''?'' \<and> c \<noteq> CHR ''#'') (after_slashes u)"

definition simple_scheme :: "string \<Rightarrow> string" where
  "simple_scheme u = takeWhile (\<lambda>c. c \<noteq> CHR '':'') u"

definition simple_clean :: "string \<Rightarrow> string" where
  "simple_clean u = takeWhile (\<lambda>c. c \<noteq> CHR ''?'' \<and> c \<noteq> CHR ''#'') u"

definition simple_urljoin :: "string \<Rightarrow> string \<Rightarrow> exn + string" where
  "simple_urljoin base h =
     (if h = ''http://['' then Inl ValueError
      else if starts_with ''http://'' h then Inr h
      else Inr (simple_scheme base @ ''://'' @ simple_netloc base @ h))"

definition world :: "(string \<Rightarrow> exn + response) \<Rightarrow> env" where
  "world web =
     \<lparr>url_scheme = simple_scheme, url_netloc = simple_netloc, url_clean = simple_clean,
      urljoin = simple_urljoin, requests_get = web,
      requests_head = (\<lambda>u. case web u of Inl e \<Rightarrow> Inl e | Inr r \<Rightarrow> Inr (status r)),
      latency = (\<lambda>u. 1 / 10)\<rparr>"

definition allow_all :: policy where
  "allow_all = \<lparr>rp_can_fetch = (\<lambda>ua u. True), rp_crawl_delay = (\<lambda>ua. None)\<rparr>"

definition html_page :: "string list \<Rightarrow> response" where
  "html_page hs = \<lparr>status = 200, content_type = ''text/html; charset=utf-8'', hrefs = hs,
                   srcs = [], robots_txt = allow_all\<rparr>"

definition robots_file :: "policy \<Rightarrow> response" where
  "robots_file p = \<lparr>status = 200, content_type = ''text/plain'', hrefs = [], srcs = [],
                    robots_txt = p\<rparr>"

definition default_args :: args where
  "default_args =
     \<lparr>arg_url = ''http://a.com/'', arg_allow_exit = False, arg_external_links_depth = 0,
      arg_depth = 3, arg_delay = 1, arg_no_robots = False, arg_bot_name = ''*'',
      arg_exclude = [], arg_include = []\<rparr>"



definition empty_web :: "string \<Rightarrow> exn + response" where
  "empty_web u = Inr (html_page [])"



definition default_config :: config where
  "default_config =
     \<lparr>start_url = ''http://a.com/'', allow_exit = False, external_links_depth = 0,
      max_depth = 3, delay = 1, respect_robots = True, user_agent = ''*'',
      exclude_patterns = [], include_patterns = []\<rparr>"

definition scope_grows :: "config \<Rightarrow> state \<Rightarrow> state \<Rightarrow> bool" where
  "scope_grows cfg s s' \<longleftrightarrow>
     max_external_hops s \<le> max_external_hops s'
     \<and> current_domains s \<subseteq> current_domains s'
     \<and> max_external_hops s' \<le> max (max_external_hops s) (external_links_depth cfg)"

definition negative_args :: args where
  "negative_args = default_args\<lparr>arg_allow_exit := True, arg_external_links_depth := - 1\<rparr>"

definition negative_config :: config where
  "negative_config = default_config\<lparr>allow_exit := True, external_links_depth := - 1\<rparr>"

definition hop_config :: config where
  "hop_config = default_config\<lparr>allow_exit := True, external_links_depth := 1\<rparr>"




definition no_robots_config :: config where
  "no_robots_config = default_config\<lparr>respect_robots := False\<rparr>"

definition bad_href_web :: "string \<Rightarrow> exn + response" where
  "bad_href_web u =
     (if u = ''http://a.com/'' then Inr (html_page (replicate 50 ''/a'' @ [''http://[''] ))
      else Inr (html_page []))"

definition wasted_args :: args where
  "wasted_args = default_args\<lparr>arg_allow_exit := True, arg_external_links_depth := 1,
                               arg_no_robots := True, arg_exclude := [''*b.com*'']\<rparr>"

definition wasted_config :: config where
  "wasted_config =
     \<lparr>start_url = ''http://a.com/'', allow_exit = True, external_links_depth = 1,
      max_depth = 3, delay = 1, respect_robots = False, user_agent = ''*'',
      exclude_patterns = [[Star, Lit CHR ''b'', Lit CHR ''.'', Lit CHR ''c'', Lit CHR ''o'',
                           Lit CHR ''m'', Star]],
      include_patterns = []\<rparr>"

definition wasted_web :: "string \<Rightarrow> exn + response" where
  "wasted_web u =
     (if u = ''http://a.com/'' then Inr (html_page [''http://b.com/x'', ''http://c.com/''])
      else Inr (html_page []))"






























section \<open>Properties\<close>

subsection \<open>Pattern filter\<close>










subsection \<open>Effective delay\<close>







subsection \<open>A proof rule for the loop\<close>

text \<open>
  An invariant \<open>P\<close> of the queue, the rate limiter's dictionary and the state that every
  kind of turn of the loop keeps gives \<open>Q\<close> of the loop's result.
\<close>

lemma crawl_loop_rule:
  assumes init: "P queue lrt s"
    and skip: "\<And>u d q lrt s. P ((u, d) # q) lrt s
        \<Longrightarrow> u \<in> visited_urls s \<or> int d > max_depth cfg \<Longrightarrow> P q lrt s"
    and reject: "\<And>u d q lrt s s1. P ((u, d) # q) lrt s
        \<Longrightarrow> u \<notin> visited_urls s \<Longrightarrow> \<not> int d > max_depth cfg
        \<Longrightarrow> is_same_domain cfg env u s = (False, s1) \<Longrightarrow> P q lrt s1"
    and page: "\<And>u d q lrt s s1 new lrt' s2. P ((u, d) # q) lrt s
        \<Longrightarrow> u \<notin> visited_urls s \<Longrightarrow> \<not> int d > max_depth cfg
        \<Longrightarrow> is_same_domain cfg env u s = (True, s1)
        \<Longrightarrow> crawl_page cfg env u d lrt s1 = (Inr new, lrt', s2) \<Longrightarrow> P (q @ new) lrt' s2"
    and raise: "\<And>u d q lrt s s1 e lrt' s2. P ((u, d) # q) lrt s
        \<Longrightarrow> u \<notin> visited_urls s \<Longrightarrow> \<not> int d > max_depth cfg
        \<Longrightarrow> is_same_domain cfg env u s = (True, s1)
        \<Longrightarrow> crawl_page cfg env u d lrt s1 = (Inl e, lrt', s2) \<Longrightarrow> Q (Some e, s2)"
    and finish: "\<And>lrt s. P [] lrt s \<Longrightarrow> Q (None, s)"
  shows "Q (crawl_loop cfg env queue lrt s)"
  using init
proof (induction cfg' \<equiv> cfg env' \<equiv> env queue lrt s rule: crawl_loop.induct)
  case (1 lrt s)
  then show ?case using finish by simp
next
  case (2 url depth queue lrt s)
  note P = \<open>P ((url, depth) # queue) lrt s\<close>
  show ?case
  proof (cases "url \<in> visited_urls s")
    case True
    then have "P queue lrt s" using skip [OF P] by simp
    then show ?thesis using True "2.hyps"(1) by simp
  next
    case nv: False
    show ?thesis
    proof (cases "int depth > max_depth cfg")
      case True
      then have "P queue lrt s" using skip [OF P] by simp
      then show ?thesis using nv True "2.hyps"(2) by simp
    next
      case nd: False
      obtain ok s1 where i: "is_same_domain cfg env url s = (ok, s1)" by force
      show ?thesis
      proof (cases ok)
        case False
        then have "P queue lrt s1" using reject [OF P nv nd] i by simp
        then have "Q (crawl_loop cfg env queue lrt s1)"
          using "2.hyps"(3) [OF nv nd i [symmetric]] False by simp
        then show ?thesis using nv nd i False by simp
      next
        case True
        obtain r lrt' s2 where p: "crawl_page cfg env url depth lrt s1 = (r, lrt', s2)"
          by (metis prod.collapse)
        show ?thesis
        proof (cases r)
          case (Inl e)
          then have "Q (Some e, s2)" using raise [OF P nv nd] i True p by simp
          then show ?thesis using nv nd i True p Inl by simp
        next
          case (Inr new)
          then have "P (queue @ new) lrt' s2" using page [OF P nv nd] i True p by simp
          then have "Q (crawl_loop cfg env (queue @ new) lrt' s2)"
            using "2.hyps"(4) [OF nv nd i [symmetric] _ p [symmetric] Inr refl] True by simp
          then show ?thesis using nv nd i True p Inr by simp
        qed
      qed
    qed
  qed
qed

subsection \<open>Scope guard\<close>

lemma scope_grows_trans:
  "scope_grows cfg s s1 \<Longrightarrow> scope_grows cfg s1 s2 \<Longrightarrow> scope_grows cfg s s2"
  by (auto simp: scope_grows_def)

lemma scope_is_same_domain:
  "is_same_domain cfg env url s = (ok, s') \<Longrightarrow> scope_grows cfg s s'"
  by (auto simp: is_same_domain_def scope_grows_def split: if_splits)

lemma scope_get_robots_parser:
  "get_robots_parser cfg env d s = (rp, s') \<Longrightarrow> scope_grows cfg s s'"
  by (auto simp: get_robots_parser_def Let_def store_crawl_delay_def cache_robots_def
        http_request_def scope_grows_def split: option.splits sum.splits if_splits)

lemma scope_can_fetch:
  "can_fetch cfg env url s = (ok, s') \<Longrightarrow> scope_grows cfg s s'"
  by (auto simp: can_fetch_def split: if_splits prod.splits option.splits
        dest: scope_get_robots_parser) (simp add: scope_grows_def)

lemma scope_is_valid_url:
  "is_valid_url cfg env url s = (ok, s') \<Longrightarrow> scope_grows cfg s s'"
  by (auto simp: is_valid_url_def split: if_splits prod.splits dest: scope_can_fetch)

lemma scope_extract_links:
  "extract_links cfg env url hs acc s = (r, s') \<Longrightarrow> scope_grows cfg s s'"
proof (induction hs arbitrary: acc s)
  case Nil
  then show ?case by (simp add: scope_grows_def)
next
  case (Cons h hs)
  show ?case
  proof (cases "urljoin env url h")
    case (Inl e)
    then show ?thesis using Cons.prems by (simp add: scope_grows_def)
  next
    case (Inr a)
    obtain ok s1 where i: "is_same_domain cfg env a s = (ok, s1)" by force
    have "extract_links cfg env url hs (if ok then acc @ [a] else acc) s1 = (r, s')"
      using Cons.prems Inr i by simp
    then have "scope_grows cfg s1 s'" by (rule Cons.IH)
    then show ?thesis using scope_is_same_domain [OF i] by (rule scope_grows_trans [rotated])
  qed
qed

lemma scope_extract_data:
  "extract_data cfg env r url s = (x, s') \<Longrightarrow> scope_grows cfg s s'"
  by (auto simp: extract_data_def split: prod.splits sum.splits dest: scope_extract_links)

lemma scope_http_request: "scope_grows cfg s (http_request env k u s)"
  by (simp add: scope_grows_def http_request_def)

lemma scope_scrape_url:
  assumes "scrape_url cfg env url s = (x, s')"
  shows "scope_grows cfg s s'"
proof -
  let ?s1 = "http_request env ScrapeGet url s"
  have 1: "scope_grows cfg s ?s1" by (rule scope_http_request)
  have "scope_grows cfg ?s1 s'"
    using assms
    by (auto simp: scrape_url_def Let_def split: sum.splits prod.splits if_splits
          dest: scope_extract_data) (simp_all add: scope_grows_def sleep_def)
  with 1 show ?thesis by (rule scope_grows_trans)
qed

lemma scope_collect_links:
  "collect_links cfg env url hs acc s = (r, s') \<Longrightarrow> scope_grows cfg s s'"
proof (induction hs arbitrary: acc s)
  case Nil
  then show ?case by (simp add: scope_grows_def)
next
  case (Cons h hs)
  show ?case
  proof (cases "urljoin env url h")
    case (Inl e)
    then show ?thesis using Cons.prems by (simp add: scope_grows_def)
  next
    case (Inr a)
    let ?c = "url_clean env a"
    show ?thesis
    proof (cases "?c \<noteq> [] \<and> ?c \<noteq> url")
      case False
      then have "collect_links cfg env url hs acc s = (r, s')"
        using Cons.prems Inr by auto
      then show ?thesis by (rule Cons.IH)
    next
      case True
      obtain v s1 where v: "is_valid_url cfg env ?c s = (v, s1)" by force
      note 1 = scope_is_valid_url [OF v]
      show ?thesis
      proof (cases v)
        case False
        then have "collect_links cfg env url hs acc s1 = (r, s')"
          using Cons.prems Inr True v by simp
        then have "scope_grows cfg s1 s'" by (rule Cons.IH)
        with 1 show ?thesis by (rule scope_grows_trans)
      next
        case tv: True
        obtain d s2 where d: "is_same_domain cfg env ?c s1 = (d, s2)" by force
        have "collect_links cfg env url hs (if d then acc @ [?c] else acc) s2 = (r, s')"
          using Cons.prems Inr True v tv d by simp
        then have "scope_grows cfg s2 s'" by (rule Cons.IH)
        with scope_grows_trans [OF 1 scope_is_same_domain [OF d]] show ?thesis
          by (rule scope_grows_trans)
      qed
    qed
  qed
qed

lemma scope_get_links_from_page:
  assumes "get_links_from_page cfg env url s = (x, s')"
  shows "scope_grows cfg s s'"
proof -
  let ?s1 = "http_request env LinksGet url s"
  have 1: "scope_grows cfg s ?s1" by (rule scope_http_request)
  have "scope_grows cfg ?s1 s'"
    using assms
    by (auto simp: get_links_from_page_def Let_def split: sum.splits prod.splits if_splits
          dest: scope_collect_links) (simp_all add: scope_grows_def)
  with 1 show ?thesis by (rule scope_grows_trans)
qed

lemma scope_rate_limit_wait:
  "rate_limit_wait cfg env url lrt s = (lrt', s') \<Longrightarrow> scope_grows cfg s s'"
  by (auto simp: rate_limit_wait_def Let_def scope_grows_def sleep_def split: option.splits)

lemma scope_crawl_page:
  assumes "crawl_page cfg env url depth lrt s = (r, lrt', s')"
  shows "scope_grows cfg s s'"
proof -
  let ?s0 = "s\<lparr>visited_urls := insert url (visited_urls s)\<rparr>"
  obtain lrt1 s1 where r: "rate_limit_wait cfg env url lrt ?s0 = (lrt1, s1)" by force
  obtain data s2 where sc: "scrape_url cfg env url s1 = (data, s2)" by force
  have 0: "scope_grows cfg s ?s0" by (simp add: scope_grows_def)
  note 2 = scope_grows_trans [OF scope_grows_trans [OF 0 scope_rate_limit_wait [OF r]]
              scope_scrape_url [OF sc]]
  show ?thesis
  proof (cases data)
    case None
    then show ?thesis using assms r sc 2 by (simp add: crawl_page_def)
  next
    case (Some pd)
    let ?s3 = "s2\<lparr>scraped_data := scraped_data s2 @ [pd]\<rparr>"
    have 3: "scope_grows cfg s ?s3" using 2 by (simp add: scope_grows_def)
    show ?thesis
    proof (cases "int depth < max_depth cfg")
      case False
      then show ?thesis using assms r sc Some 3 by (simp add: crawl_page_def)
    next
      case True
      obtain ls s4 where g: "get_links_from_page cfg env url ?s3 = (ls, s4)" by force
      have "s' = s4"
        using assms r sc Some True g by (auto simp: crawl_page_def split: sum.splits)
      then show ?thesis
        using scope_grows_trans [OF 3 scope_get_links_from_page [OF g]] by simp
    qed
  qed
qed

lemma scope_crawl_loop:
  assumes "crawl_loop cfg env queue lrt s = (r, s')"
  shows "scope_grows cfg s s'"
proof -
  have "scope_grows cfg s (snd (crawl_loop cfg env queue lrt s))"
  proof (rule crawl_loop_rule [where P = "\<lambda>q l t. scope_grows cfg s t"
                                and Q = "\<lambda>x. scope_grows cfg s (snd x)"])
    show "scope_grows cfg s s" by (simp add: scope_grows_def)
  qed (auto intro: scope_grows_trans dest: scope_is_same_domain scope_crawl_page)
  then show ?thesis using assms by simp
qed

lemma scope_test_start_url:
  "test_start_url cfg env s = (r, s') \<Longrightarrow> scope_grows cfg s s'"
  by (auto simp: test_start_url_def Let_def http_request_def scope_grows_def
        split: sum.splits if_splits)

lemma scope_crawl:
  assumes "crawl cfg env s = (r, s')"
  shows "scope_grows cfg s s'"
proof -
  obtain t s1 where t: "test_start_url cfg env s = (t, s1)" by force
  note 1 = scope_test_start_url [OF t]
  obtain ok s2 where c: "can_fetch cfg env (start_url cfg) s1 = (ok, s2)" by force
  note 2 = scope_grows_trans [OF 1 scope_can_fetch [OF c]]
  show ?thesis
    using assms t c 1 2
    by (auto simp: crawl_def simp del: crawl_loop.simps split: sum.splits if_splits
          dest!: scope_crawl_loop intro: scope_grows_trans)
qed

text \<open>
  C5, as the code has it. \<^verbatim>\<open>is_same_domain\<close> never lowers the counter
  \<^verbatim>\<open>max_external_hops\<close> and never removes a domain from \<^verbatim>\<open>current_domains\<close>; a counter
  within the budget stays within it; and a URL whose domain is already admitted leaves
  the state as it is. The same holds from the start to the end of a whole crawl, since
  no other function writes the two attributes. The counter starts at 0, so it stays
  within the budget when the budget is not negative.
\<close>

theorem scope_monotone:
  assumes "is_same_domain cfg env url s = (ok, s1)"
    and "crawl cfg env s0 = (r, s')"
  shows "max_external_hops s \<le> max_external_hops s1
         \<and> current_domains s \<subseteq> current_domains s1
         \<and> (max_external_hops s \<le> external_links_depth cfg
              \<longrightarrow> max_external_hops s1 \<le> external_links_depth cfg)
         \<and> (url_netloc env url \<in> current_domains s \<longrightarrow> s1 = s)
         \<and> max_external_hops s0 \<le> max_external_hops s'
         \<and> current_domains s0 \<subseteq> current_domains s'
         \<and> (max_external_hops s0 \<le> external_links_depth cfg
              \<longrightarrow> max_external_hops s' \<le> external_links_depth cfg)"
proof -
  have 1: "scope_grows cfg s s1" using assms(1) by (rule scope_is_same_domain)
  have 2: "scope_grows cfg s0 s'" using assms(2) by (rule scope_crawl)
  have 3: "url_netloc env url \<in> current_domains s \<longrightarrow> s1 = s"
    using assms(1) by (auto simp: is_same_domain_def split: if_splits)
  show ?thesis using 1 2 3 by (auto simp: scope_grows_def)
qed

theorem scope_monotone_witness:
  "is_same_domain hop_config (world empty_web) ''http://b.com/x''
       (init_state hop_config (world empty_web))
     = (True, (init_state hop_config (world empty_web))
                \<lparr>max_external_hops := 1, current_domains := {''b.com'', ''a.com''}\<rparr>)
   \<and> is_same_domain hop_config (world empty_web) ''http://b.com/y''
       ((init_state hop_config (world empty_web))
                \<lparr>max_external_hops := 1, current_domains := {''b.com'', ''a.com''}\<rparr>)
     = (True, (init_state hop_config (world empty_web))
                \<lparr>max_external_hops := 1, current_domains := {''b.com'', ''a.com''}\<rparr>)
   \<and> max_external_hops (init_state hop_config (world empty_web)) = 0
   \<and> external_links_depth hop_config = 1
   \<and> 0 \<le> max_external_hops (snd (crawl hop_config (world empty_web)
                                     (init_state hop_config (world empty_web))))
   \<and> max_external_hops (snd (crawl hop_config (world empty_web)
                                (init_state hop_config (world empty_web)))) \<le> 1
   \<and> ''a.com'' \<in> current_domains (snd (crawl hop_config (world empty_web)
                                         (init_state hop_config (world empty_web))))"
proof -
  let ?W = "world empty_web"
  let ?s = "init_state hop_config ?W"
  let ?s1 = "?s\<lparr>max_external_hops := 1, current_domains := {''b.com'', ''a.com''}\<rparr>"
  have a: "is_same_domain hop_config ?W ''http://b.com/x'' ?s = (True, ?s1)"
    by (simp add: is_same_domain_def hop_config_def default_config_def world_def
          init_state_def start_domain_def simple_netloc_def)
  have b: "is_same_domain hop_config ?W ''http://b.com/y'' ?s1 = (True, ?s1)"
    by (simp add: is_same_domain_def hop_config_def default_config_def world_def
          init_state_def start_domain_def simple_netloc_def)
  have c: "crawl hop_config ?W ?s = (fst (crawl hop_config ?W ?s), snd (crawl hop_config ?W ?s))"
    by simp
  have h: "max_external_hops ?s = 0" "external_links_depth hop_config = 1"
    "current_domains ?s = {''a.com''}"
    by (simp_all add: hop_config_def default_config_def init_state_def world_def
          start_domain_def simple_netloc_def)
  show ?thesis
    using scope_monotone [OF a c] scope_monotone [OF b c] a b h by simp
qed

text \<open>
  C5 as stated has the counter within the budget throughout. \<^verbatim>\<open>main\<close> accepts
  \<^verbatim>\<open>--allow-exit --external-links-depth -1\<close>; the counter is 0 from the constructor to
  the end of the crawl, above the budget of -1.
\<close>

theorem scope_budget_counterexample:
  "main_config negative_args = Some negative_config
   \<and> external_links_depth negative_config
       < max_external_hops (init_state negative_config (world empty_web))
   \<and> external_links_depth negative_config
       < max_external_hops (snd (crawl negative_config (world empty_web)
                                   (init_state negative_config (world empty_web))))"
proof -
  let ?W = "world empty_web"
  let ?s = "init_state negative_config ?W"
  have "crawl negative_config ?W ?s
          = (fst (crawl negative_config ?W ?s), snd (crawl negative_config ?W ?s))"
    by simp
  then have "scope_grows negative_config ?s (snd (crawl negative_config ?W ?s))"
    by (rule scope_crawl)
  then have "max_external_hops ?s \<le> max_external_hops (snd (crawl negative_config ?W ?s))"
    by (simp add: scope_grows_def)
  moreover have "max_external_hops ?s = 0" "external_links_depth negative_config = - 1"
    by (simp_all add: init_state_def negative_config_def default_config_def)
  moreover have "main_config negative_args = Some negative_config"
    by (simp add: main_config_def negative_args_def default_args_def negative_config_def
          default_config_def)
  ultimately show ?thesis by simp
qed

subsection \<open>Deduplication\<close>




















lemmas model_defs =
  crawl_def test_start_url_def crawl_page_def rate_limit_wait_def enqueue_links_def
  get_links_from_page_def scrape_url_def extract_data_def is_html_def raise_for_status_def
  is_same_domain_def is_valid_url_def can_fetch_def get_robots_parser_def
  store_crawl_delay_def cache_robots_def robots_url_def get_crawl_delay_def
  http_request_def sleep_def init_state_def start_domain_def lower_def Let_def

lemmas world_defs =
  world_def simple_netloc_def simple_scheme_def simple_clean_def simple_urljoin_def
  html_page_def robots_file_def allow_all_def default_config_def



subsection \<open>Exceptions\<close>

lemma extract_links_ok:
  assumes "\<forall>h \<in> set hs. \<exists>a. urljoin env url h = Inr a"
  shows "\<exists>ls. fst (extract_links cfg env url hs acc s) = Inr ls"
  using assms
proof (induction hs arbitrary: acc s)
  case Nil
  then show ?case by simp
next
  case (Cons h hs)
  then obtain a where a: "urljoin env url h = Inr a" by auto
  obtain ok s1 where i: "is_same_domain cfg env a s = (ok, s1)" by force
  show ?case using Cons a i by simp
qed

lemma extract_images_ok:
  assumes "\<forall>i \<in> set is. \<exists>a. urljoin env url i = Inr a"
  shows "\<exists>as. extract_images env url is = Inr as"
  using assms by (induction "is") auto

lemma scrape_url_ok:
  assumes "requests_get env url = Inr r" and "status r \<noteq> 429" and "\<not> raise_for_status r"
    and "is_html r"
    and "\<forall>h \<in> set (take 50 (hrefs r)). \<exists>a. urljoin env url h = Inr a"
    and "\<forall>i \<in> set (take 20 (srcs r)). \<exists>a. urljoin env url i = Inr a"
  shows "\<exists>data. fst (scrape_url cfg env url s) = Some data"
proof -
  let ?s1 = "http_request env ScrapeGet url s"
  obtain ls where l: "fst (extract_links cfg env url (take 50 (hrefs r)) [] ?s1) = Inr ls"
    using extract_links_ok [OF assms(5)] by blast
  obtain as where i: "extract_images env url (take 20 (srcs r)) = Inr as"
    using extract_images_ok [OF assms(6)] by blast
  obtain s2 where "extract_links cfg env url (take 50 (hrefs r)) [] ?s1 = (Inr ls, s2)"
    using l by (metis prod.collapse)
  then show ?thesis
    using assms(1-4) i by (simp add: scrape_url_def extract_data_def Let_def)
qed

lemma collect_links_raises:
  assumes "\<forall>x \<in> set pre. \<exists>a. urljoin env url x = Inr a" and "urljoin env url h = Inl e"
  shows "fst (collect_links cfg env url (pre @ h # post) acc s) = Inl e"
  using assms(1)
proof (induction pre arbitrary: acc s)
  case Nil
  then show ?case using assms(2) by simp
next
  case (Cons x pre)
  then obtain a where a: "urljoin env url x = Inr a" by auto
  obtain v s1 where v: "is_valid_url cfg env (url_clean env a) s = (v, s1)" by force
  obtain d s2 where d: "is_same_domain cfg env (url_clean env a) s1 = (d, s2)" by force
  show ?case using Cons a v d by simp
qed

lemma get_links_raises:
  assumes "requests_get env url = Inr r" and "\<not> raise_for_status r" and "is_html r"
    and "hrefs r = pre @ h # post"
    and "\<forall>x \<in> set pre. \<exists>a. urljoin env url x = Inr a"
    and "urljoin env url h = Inl e" and "\<not> is_request_exception e"
  shows "fst (get_links_from_page cfg env url s) = Inl e"
proof -
  let ?s1 = "http_request env LinksGet url s"
  have "fst (collect_links cfg env url (hrefs r) [] ?s1) = Inl e"
    using collect_links_raises [OF assms(5,6)] assms(4) by simp
  then obtain s2 where "collect_links cfg env url (hrefs r) [] ?s1 = (Inl e, s2)"
    by (metis prod.collapse)
  then show ?thesis
    using assms(1-3,7) by (simp add: get_links_from_page_def Let_def)
qed

lemma crawl_page_raises:
  assumes "requests_get env url = Inr r" and "status r \<noteq> 429" and "\<not> raise_for_status r"
    and "is_html r"
    and "\<forall>h \<in> set (take 50 (hrefs r)). \<exists>a. urljoin env url h = Inr a"
    and "\<forall>i \<in> set (take 20 (srcs r)). \<exists>a. urljoin env url i = Inr a"
    and "hrefs r = pre @ h # post"
    and "\<forall>x \<in> set pre. \<exists>a. urljoin env url x = Inr a"
    and "urljoin env url h = Inl e" and "\<not> is_request_exception e"
    and "int depth < max_depth cfg"
  shows "fst (crawl_page cfg env url depth lrt s) = Inl e"
proof -
  let ?s0 = "s\<lparr>visited_urls := insert url (visited_urls s)\<rparr>"
  obtain lrt1 s1 where w: "rate_limit_wait cfg env url lrt ?s0 = (lrt1, s1)" by force
  obtain data where "fst (scrape_url cfg env url s1) = Some data"
    using scrape_url_ok [OF assms(1-6)] by blast
  then obtain s2 where sc: "scrape_url cfg env url s1 = (Some data, s2)"
    by (metis prod.collapse)
  let ?s3 = "s2\<lparr>scraped_data := scraped_data s2 @ [data]\<rparr>"
  have "fst (get_links_from_page cfg env url ?s3) = Inl e"
    using get_links_raises [OF assms(1,3,4,7-10)] .
  then obtain s4 where "get_links_from_page cfg env url ?s3 = (Inl e, s4)"
    by (metis prod.collapse)
  then show ?thesis using w sc assms(11) by (simp add: crawl_page_def)
qed

text \<open>
  C9 fails on the code. The start page has 51 anchors; the first fifty are \<^verbatim>\<open>/a\<close> and the
  last is \<^verbatim>\<open>http://[\<close>, on which \<^verbatim>\<open>urljoin\<close> raises \<^verbatim>\<open>ValueError\<close>. \<^verbatim>\<open>extract_data\<close> reads
  the first fifty anchors only, so \<^verbatim>\<open>scrape_url\<close> succeeds; \<^verbatim>\<open>get_links_from_page\<close> reads
  all of them, catches \<^verbatim>\<open>requests.RequestException\<close> only, and the exception leaves the
  loop and \<^verbatim>\<open>crawl\<close>.
\<close>

theorem crawl_raises_on_bad_href:
  "fst (crawl no_robots_config (world bad_href_web)
          (init_state no_robots_config (world bad_href_web))) = Some ValueError"
proof -
  let ?W = "world bad_href_web"
  let ?r = "html_page (replicate 50 ''/a'' @ [''http://['']) "
  have g: "requests_get ?W ''http://a.com/'' = Inr ?r"
    by (simp add: world_def bad_href_web_def)
  have j: "urljoin ?W ''http://a.com/'' ''/a'' = Inr ''http://a.com/a''"
    by (simp add: world_def simple_urljoin_def simple_scheme_def simple_netloc_def)
  have b: "urljoin ?W ''http://a.com/'' ''http://['' = Inl ValueError"
    by (simp add: world_def simple_urljoin_def)
  have r: "status ?r \<noteq> 429" "\<not> raise_for_status ?r" "is_html ?r"
    "hrefs ?r = replicate 50 ''/a'' @ ''http://['' # []" "srcs ?r = []"
    by (simp_all add: html_page_def raise_for_status_def is_html_def lower_def)
  have p: "fst (crawl_page no_robots_config ?W ''http://a.com/'' 0 lrt s) = Inl ValueError"
    for lrt s
    by (rule crawl_page_raises [OF g r(1-3) _ _ r(4) _ b])
       (use j in \<open>auto simp: r no_robots_config_def default_config_def\<close>)
  have l: "fst (crawl_loop no_robots_config ?W [(''http://a.com/'', 0)] lrt s) = Some ValueError"
    if "''http://a.com/'' \<notin> visited_urls s" for lrt s
  proof -
    have i: "is_same_domain no_robots_config ?W ''http://a.com/'' s = (True, s)"
      by (simp add: is_same_domain_def start_domain_def no_robots_config_def default_config_def)
    obtain lrt' s2 where "crawl_page no_robots_config ?W ''http://a.com/'' 0 lrt s
        = (Inl ValueError, lrt', s2)"
      using p [of lrt s] by (metis prod.collapse)
    then show ?thesis
      using that i by (simp add: no_robots_config_def default_config_def)
  qed
  have s: "start_url no_robots_config = ''http://a.com/''"
    by (simp add: no_robots_config_def default_config_def)
  have v: "visited_urls (snd (test_start_url no_robots_config ?W
             (init_state no_robots_config ?W))) = {}"
    by (simp add: test_start_url_def Let_def http_request_def init_state_def
          split: sum.splits)
  obtain t s1 where t: "test_start_url no_robots_config ?W (init_state no_robots_config ?W)
      = (t, s1)" by force
  have c: "can_fetch no_robots_config ?W u s1 = (True, s1)" for u
    by (simp add: can_fetch_def no_robots_config_def)
  show ?thesis
    using t v c l [of s1] s
    by (auto simp: crawl_def simp del: crawl_loop.simps split: sum.splits)
qed

subsection \<open>Hop budget and filtering\<close>

text \<open>
  C2 fails on the code. One external hop is allowed and the pattern \<^verbatim>\<open>*b.com*\<close> is
  excluded. The start page links to \<^verbatim>\<open>http://b.com/x\<close>, which the filter rejects, and to
  \<^verbatim>\<open>http://c.com/\<close>, which it accepts. \<^verbatim>\<open>extract_data\<close> calls \<^verbatim>\<open>is_same_domain\<close> on both
  links as they are: the excluded link takes the only hop and \<^verbatim>\<open>b.com\<close> is admitted, so
  that \<^verbatim>\<open>get_links_from_page\<close> finds the budget used up when it comes to the accepted
  link, and nothing but the start page is scraped.
\<close>

theorem excluded_link_takes_hop:
  "main_config wasted_args = Some wasted_config
   \<and> \<not> fst (is_valid_url wasted_config (world wasted_web) ''http://b.com/x''
              (init_state wasted_config (world wasted_web)))
   \<and> fst (is_valid_url wasted_config (world wasted_web) ''http://c.com/''
            (init_state wasted_config (world wasted_web)))
   \<and> max_external_hops (snd (crawl wasted_config (world wasted_web)
                                (init_state wasted_config (world wasted_web)))) = 1
   \<and> current_domains (snd (crawl wasted_config (world wasted_web)
                                (init_state wasted_config (world wasted_web))))
       = {''b.com'', ''a.com''}
   \<and> map pd_url (scraped_data (snd (crawl wasted_config (world wasted_web)
                                     (init_state wasted_config (world wasted_web)))))
       = [''http://a.com/'']"
proof -
  have 1: "main_config wasted_args = Some wasted_config"
    by (simp add: main_config_def wasted_args_def default_args_def wasted_config_def
          wildcard_to_regex_def fnmatch_translate_def)
  have 2: "\<not> fst (is_valid_url wasted_config (world wasted_web) ''http://b.com/x''
              (init_state wasted_config (world wasted_web)))"
    by (simp add: is_valid_url_def can_fetch_def wasted_config_def lower_def)
  have 3: "fst (is_valid_url wasted_config (world wasted_web) ''http://c.com/''
              (init_state wasted_config (world wasted_web)))"
    by (simp add: is_valid_url_def can_fetch_def wasted_config_def lower_def)
  have 4: "snd (crawl wasted_config (world wasted_web)
                 (init_state wasted_config (world wasted_web)))
           = \<lparr>visited_urls = {''http://a.com/''},
              scraped_data = [\<lparr>pd_url = ''http://a.com/'', pd_domain = ''a.com'',
                               pd_links = [''http://b.com/x''], pd_images = [],
                               pd_status = Some 200\<rparr>],
              max_external_hops = 1, current_domains = {''b.com'', ''a.com''},
              robots_cache = Map.empty, domain_delays = Map.empty, clock = 3 / 10,
              requests_log = [(Head, ''http://a.com/'', 0), (ScrapeGet, ''http://a.com/'', 1 / 10),
                              (LinksGet, ''http://a.com/'', 2 / 10)]\<rparr>"
    by (simp add: model_defs world_defs wasted_web_def wasted_config_def)
  show ?thesis using 1 2 3 by (simp add: 4)
qed

subsection \<open>Robots compliance\<close>




























subsection \<open>Rate limiting\<close>


































subsection \<open>Where admission is decided\<close>













subsection \<open>The start URL\<close>











end
